theory Spec2Isabelle
  imports Main "HOL-Library.Multiset"
begin

section \<open>JavaScript values and objects\<close>

text \<open>
  The article utility \<^verbatim>\<open>src/lib/articles.ts\<close> reads properties of plain objects whose
  TypeScript types are asserted by a cast, not checked. The values a property can hold
  at run time are modelled by the primitives below (numbers are restricted to the
  integral ones); an absent property reads as \<open>JUndefined\<close>.
\<close>

datatype jsval = JUndefined | JNull | JBool bool | JNum int | JStr string

type_synonym jsobj = "string \<rightharpoonup> jsval"

definition getProp :: "jsobj \<Rightarrow> string \<Rightarrow> jsval" where
  "getProp obj k = (case obj k of None \<Rightarrow> JUndefined | Some v \<Rightarrow> v)"

text \<open>Truthiness, as used by \<^verbatim>\<open>!article.isPrivate\<close>.\<close>

fun toBoolean :: "jsval \<Rightarrow> bool" where
  "toBoolean JUndefined = False"
| "toBoolean JNull = False"
| "toBoolean (JBool b) = b"
| "toBoolean (JNum n) = (n \<noteq> 0)"
| "toBoolean (JStr s) = (s \<noteq> [])"

text \<open>
  \<^verbatim>\<open>+new Date(v)\<close>: the time value in milliseconds, \<open>None\<close> standing for NaN. A string
  goes through the platform's date parser, which is a parameter; any other primitive is
  converted to a number and clipped to the range of valid time values.
\<close>

fun timeValue :: "(string \<Rightarrow> int option) \<Rightarrow> jsval \<Rightarrow> int option" where
  "timeValue parse JUndefined = None"
| "timeValue parse JNull = Some 0"
| "timeValue parse (JBool b) = Some (if b then 1 else 0)"
| "timeValue parse (JNum n) = (if \<bar>n\<bar> \<le> 8640000000000000 then Some n else None)"
| "timeValue parse (JStr s) = parse s"

section \<open>importArticle\<close>

text \<open>
  \<^verbatim>\<open>articleFilename.replace(/(\/page)?\.mdx$/, '')\<close>. The pattern is anchored at the end
  of the input, so it matches at a start position exactly when the rest of the string is
  \<^verbatim>\<open>/page.mdx\<close> (group taken) or \<^verbatim>\<open>.mdx\<close> (group skipped). The search goes left to
  right and the first match is replaced by the empty string.
\<close>

fun replaceSuffix :: "string \<Rightarrow> string" where
  "replaceSuffix [] = []"
| "replaceSuffix (c # cs) =
     (if c # cs = ''/page.mdx'' \<or> c # cs = ''.mdx'' then [] else c # replaceSuffix cs)"

text \<open>
  The object literal \<^verbatim>\<open>{ slug: ..., ...article }\<close>: the \<open>slug\<close> property is created
  first, then every own property of \<open>article\<close> is copied over it. Spreading
  \<^verbatim>\<open>undefined\<close> (the module has no \<open>article\<close> export) copies nothing.
\<close>

definition spread :: "jsobj \<Rightarrow> jsobj option \<Rightarrow> jsobj" where
  "spread obj src = (case src of None \<Rightarrow> obj | Some props \<Rightarrow> obj ++ props)"

definition toRecord :: "string \<Rightarrow> jsobj option \<Rightarrow> jsobj" where
  "toRecord articleFilename art =
     spread [''slug'' \<mapsto> JStr (replaceSuffix articleFilename)] art"


section \<open>Loading all articles\<close>

text \<open>A rejected promise carries the thrown value; its message is all that is kept.\<close>

datatype error = Thrown string

text \<open>
  What \<^verbatim>\<open>import(...)\<close> of a content unit evaluates to: the module's default export
  (the page component, opaque here) and its \<open>article\<close> export, \<open>None\<close> when the module
  does not export that name.
\<close>

record 'c module =
  default_export :: 'c
  article :: "jsobj option"

text \<open>
  The surroundings of one call: what \<^verbatim>\<open>glob('*/page.mdx', ...)\<close> settles to, what the
  dynamic import of each filename settles to, and the platform's date parser.
\<close>

record 'c env =
  glob :: "error + string list"
  importModule :: "string \<Rightarrow> error + 'c module"
  dateParse :: "string \<Rightarrow> int option"

text \<open>
  \<^verbatim>\<open>importArticle\<close>: awaits the import and builds the record; it rejects exactly when
  the import rejects.
\<close>

definition importArticle :: "'c env \<Rightarrow> string \<Rightarrow> error + jsobj" where
  "importArticle e articleFilename =
     (case importModule e articleFilename of
        Inl err \<Rightarrow> Inl err
      | Inr m \<Rightarrow> Inr (toRecord articleFilename (article m)))"

text \<open>
  \<^verbatim>\<open>Promise.all\<close>. The loads run concurrently; a schedule lists the indices of the
  promises in the order in which they settle. Each fulfilment stores its value in the
  slot of its index and decrements the counter of outstanding promises; when the counter
  reaches zero the combined promise fulfils with the slots. The first rejection rejects
  the combined promise. A promise that has settled stays as it is.
\<close>

record 'a all_state =
  slots :: "'a option list"
  remaining :: nat
  outcome :: "(error + 'a list) option"

definition settleOnce :: "'r \<Rightarrow> 'r option \<Rightarrow> 'r option" where
  "settleOnce r cur = (case cur of None \<Rightarrow> Some r | Some r' \<Rightarrow> Some r')"

definition allInit :: "nat \<Rightarrow> 'a all_state" where
  "allInit n =
     \<lparr>slots = replicate n None, remaining = n,
      outcome = (if n = 0 then Some (Inr []) else None)\<rparr>"

definition onSettled :: "(error + 'a) list \<Rightarrow> 'a all_state \<Rightarrow> nat \<Rightarrow> 'a all_state" where
  "onSettled ps st i =
     (case ps ! i of
        Inl err \<Rightarrow> st\<lparr>outcome := settleOnce (Inl err) (outcome st)\<rparr>
      | Inr v \<Rightarrow>
          (let vs = (slots st)[i := Some v]; k = remaining st - 1
           in \<lparr>slots = vs, remaining = k,
               outcome = (if k = 0 then settleOnce (Inr (map the vs)) (outcome st)
                          else outcome st)\<rparr>))"

definition promiseAll :: "nat list \<Rightarrow> (error + 'a) list \<Rightarrow> (error + 'a list) option" where
  "promiseAll sched ps = outcome (foldl (onSettled ps) (allInit (length ps)) sched)"

text \<open>A schedule is complete when every one of the \<open>n\<close> promises settles, once.\<close>

definition completeSchedule :: "nat list \<Rightarrow> nat \<Rightarrow> bool" where
  "completeSchedule sched n = (distinct sched \<and> set sched = {0..<n})"

section \<open>Filtering and sorting\<close>

definition filteredArticles :: "bool \<Rightarrow> jsobj list \<Rightarrow> jsobj list" where
  "filteredArticles includePrivate articles =
     (if includePrivate then articles
      else filter (\<lambda>article. \<not> toBoolean (getProp article ''isPrivate'')) articles)"

text \<open>
  The comparator \<^verbatim>\<open>(a, z) => +new Date(z.date) - +new Date(a.date)\<close>. The difference is
  NaN (\<open>None\<close>) as soon as one of the two time values is. Time values are integers, so
  the sign of the difference computed in floating point is the sign of the integer
  difference.
\<close>

definition compareFn :: "(string \<Rightarrow> int option) \<Rightarrow> jsobj \<Rightarrow> jsobj \<Rightarrow> int option" where
  "compareFn parse a z =
     (case (timeValue parse (getProp z ''date''), timeValue parse (getProp a ''date'')) of
        (Some tz, Some ta) \<Rightarrow> Some (tz - ta)
      | _ \<Rightarrow> None)"

text \<open>
  \<^verbatim>\<open>Array.prototype.sort\<close> with a comparator. A comparator result of NaN counts as
  zero. The sort is stable; it is modelled as an insertion sort in which an element
  moves behind another one only when the comparator is positive on the pair. For a
  consistent comparator every stable sort returns this list; for an inconsistent one
  the language leaves the order to the engine, and the model fixes one order.
\<close>

definition sortCompare :: "('a \<Rightarrow> 'a \<Rightarrow> int option) \<Rightarrow> 'a \<Rightarrow> 'a \<Rightarrow> int" where
  "sortCompare cmp x y = (case cmp x y of None \<Rightarrow> 0 | Some v \<Rightarrow> v)"

fun insertBy :: "('a \<Rightarrow> 'a \<Rightarrow> int option) \<Rightarrow> 'a \<Rightarrow> 'a list \<Rightarrow> 'a list" where
  "insertBy cmp x [] = [x]"
| "insertBy cmp x (y # ys) =
     (if 0 < sortCompare cmp x y then y # insertBy cmp x ys else x # y # ys)"

definition arraySort :: "('a \<Rightarrow> 'a \<Rightarrow> int option) \<Rightarrow> 'a list \<Rightarrow> 'a list" where
  "arraySort cmp xs = foldr (insertBy cmp) xs []"

section \<open>getAllArticles\<close>

text \<open>
  The result is \<open>None\<close> when the awaited promise never settles (a schedule that leaves
  a load pending), \<open>Some (Inl err)\<close> when the call rejects and \<open>Some (Inr records)\<close>
  when it fulfils.
\<close>

definition getAllArticles :: "'c env \<Rightarrow> nat list \<Rightarrow> bool \<Rightarrow> (error + jsobj list) option" where
  "getAllArticles e sched includePrivate =
     (case glob e of
        Inl err \<Rightarrow> Some (Inl err)
      | Inr articleFilenames \<Rightarrow>
          (case promiseAll sched (map (importArticle e) articleFilenames) of
             None \<Rightarrow> None
           | Some (Inl err) \<Rightarrow> Some (Inl err)
           | Some (Inr articles) \<Rightarrow>
               Some (Inr (arraySort (compareFn (dateParse e))
                            (filteredArticles includePrivate articles)))))"

text \<open>The values of the fulfilled promises of a list, in the order of the list.\<close>

definition fulfilled :: "(error + 'a) list \<Rightarrow> 'a list" where
  "fulfilled ps = [v. Inr v \<leftarrow> ps]"

text \<open>
  Descending order of two records by date, as a comparison of time values: it is false
  when one of the dates is not a valid time, as every comparison with NaN is.
\<close>

definition dateGe :: "(string \<Rightarrow> int option) \<Rightarrow> jsobj \<Rightarrow> jsobj \<Rightarrow> bool" where
  "dateGe parse a b =
     (case (timeValue parse (getProp a ''date''), timeValue parse (getProp b ''date'')) of
        (Some ta, Some tb) \<Rightarrow> tb \<le> ta
      | _ \<Rightarrow> False)"

definition validDate :: "(string \<Rightarrow> int option) \<Rightarrow> jsobj \<Rightarrow> bool" where
  "validDate parse a = (timeValue parse (getProp a ''date'') \<noteq> None)"

section \<open>A date parser for the examples\<close>

text \<open>
  The utility's theorems hold for every date parser. The examples use the date-only
  form \<^verbatim>\<open>YYYY-MM-DD\<close> of the language's date-time string format, which is how the
  articles of the repository write their dates: midnight UTC of that day, NaN for a
  month or day out of range. Other forms are not covered by this instance.
\<close>

definition digitVal :: "char \<Rightarrow> int option" where
  "digitVal c =
     (let n = (of_char c :: nat) in if 48 \<le> n \<and> n \<le> 57 then Some (int n - 48) else None)"

fun digitsVal :: "string \<Rightarrow> int \<Rightarrow> int option" where
  "digitsVal [] acc = Some acc"
| "digitsVal (c # cs) acc =
     (case digitVal c of None \<Rightarrow> None | Some d \<Rightarrow> digitsVal cs (10 * acc + d))"

definition isLeap :: "int \<Rightarrow> bool" where
  "isLeap y = (y mod 4 = 0 \<and> (y mod 100 \<noteq> 0 \<or> y mod 400 = 0))"

definition daysInMonth :: "int \<Rightarrow> int \<Rightarrow> int" where
  "daysInMonth y m =
     (if m = 2 then (if isLeap y then 29 else 28)
      else if m = 4 \<or> m = 6 \<or> m = 9 \<or> m = 11 then 30 else 31)"

definition dayFromYear :: "int \<Rightarrow> int" where
  "dayFromYear y =
     365 * (y - 1970) + (y - 1969) div 4 - (y - 1901) div 100 + (y - 1601) div 400"

definition dayInYear :: "int \<Rightarrow> int \<Rightarrow> int \<Rightarrow> int" where
  "dayInYear y m d =
     [0, 31, 59, 90, 120, 151, 181, 212, 243, 273, 304, 334] ! nat (m - 1)
       + (if isLeap y \<and> 2 < m then 1 else 0) + (d - 1)"

definition isoDateOnly :: "string \<Rightarrow> int option" where
  "isoDateOnly s =
     (if length s = 10 \<and> s ! 4 = CHR ''-'' \<and> s ! 7 = CHR ''-'' then
        (case (digitsVal (take 4 s) 0, digitsVal (take 2 (drop 5 s)) 0,
               digitsVal (drop 8 s) 0) of
           (Some y, Some m, Some d) \<Rightarrow>
             (if 1 \<le> m \<and> m \<le> 12 \<and> 1 \<le> d \<and> d \<le> daysInMonth y m
              then Some ((dayFromYear y + dayInYear y m d) * 86400000) else None)
         | _ \<Rightarrow> None)
      else None)"

section \<open>Example content roots\<close>

text \<open>Metadata of the shape the articles of the repository export, with a given date.\<close>

definition exampleArticle :: "string \<Rightarrow> jsobj" where
  "exampleArticle date =
     [''author'' \<mapsto> JStr ''Facundo Martin'', ''date'' \<mapsto> JStr date,
      ''title'' \<mapsto> JStr ''Title'', ''description'' \<mapsto> JStr ''Text'',
      ''isFeatured'' \<mapsto> JBool True]"

definition loaded :: "jsobj option \<Rightarrow> error + unit module" where
  "loaded art = Inr \<lparr>default_export = (), article = art\<rparr>"

text \<open>
  Three units \<open>a\<close>, \<open>b\<close>, \<open>c\<close> dated 2024-01-01, 2025-01-10 and 2025-04-24, the last one
  private.
\<close>

definition scenarioEnv :: "unit env" where
  "scenarioEnv =
     \<lparr>glob = Inr [''a/page.mdx'', ''b/page.mdx'', ''c/page.mdx''],
      importModule = (\<lambda>f.
        if f = ''a/page.mdx'' then loaded (Some (exampleArticle ''2024-01-01''))
        else if f = ''b/page.mdx'' then loaded (Some (exampleArticle ''2025-01-10''))
        else if f = ''c/page.mdx''
          then loaded (Some ((exampleArticle ''2025-04-24'')(''isPrivate'' \<mapsto> JBool True)))
        else Inl (Thrown ''Cannot find module'')),
      dateParse = isoDateOnly\<rparr>"

definition recordA :: jsobj where
  "recordA = toRecord ''a/page.mdx'' (Some (exampleArticle ''2024-01-01''))"

definition recordB :: jsobj where
  "recordB = toRecord ''b/page.mdx'' (Some (exampleArticle ''2025-01-10''))"

definition recordC :: jsobj where
  "recordC = toRecord ''c/page.mdx''
     (Some ((exampleArticle ''2025-04-24'')(''isPrivate'' \<mapsto> JBool True)))"

text \<open>The same content root when the import of \<open>b\<close> rejects.\<close>

definition brokenEnv :: "unit env" where
  "brokenEnv =
     scenarioEnv\<lparr>importModule :=
       (importModule scenarioEnv)(''b/page.mdx'' := Inl (Thrown ''Unexpected token''))\<rparr>"

text \<open>
  Three public units of which the middle one is malformed: in \<open>undatedEnv\<close> its metadata
  has no \<open>date\<close> property, in \<open>noExportEnv\<close> its module has no \<open>article\<close> export.
\<close>

definition undatedArticle :: jsobj where
  "undatedArticle =
     [''author'' \<mapsto> JStr ''Facundo Martin'', ''title'' \<mapsto> JStr ''Title'',
      ''description'' \<mapsto> JStr ''Text'', ''isFeatured'' \<mapsto> JBool True]"

definition malformedEnv :: "jsobj option \<Rightarrow> unit env" where
  "malformedEnv art =
     \<lparr>glob = Inr [''a/page.mdx'', ''m/page.mdx'', ''b/page.mdx''],
      importModule = (\<lambda>f.
        if f = ''a/page.mdx'' then loaded (Some (exampleArticle ''2024-01-01''))
        else if f = ''m/page.mdx'' then loaded art
        else if f = ''b/page.mdx'' then loaded (Some (exampleArticle ''2025-01-10''))
        else Inl (Thrown ''Cannot find module'')),
      dateParse = isoDateOnly\<rparr>"

definition undatedEnv :: "unit env" where
  "undatedEnv = malformedEnv (Some undatedArticle)"

definition noExportEnv :: "unit env" where
  "noExportEnv = malformedEnv None"

definition recordUndated :: jsobj where
  "recordUndated = toRecord ''m/page.mdx'' (Some undatedArticle)"

definition recordNoExport :: jsobj where
  "recordNoExport = toRecord ''m/page.mdx'' None"

section \<open>The article locator\<close>

text \<open>
  Modelled from the spec: the file system under the content root, which the glob call
  reads. A directory lists its entries by name; a name holds no separator.
\<close>

datatype fsnode = File | Dir "(string \<times> fsnode) list"

text \<open>
  Modelled from the spec: the path pattern of the locator. The matcher of the glob
  library is not part of the sources; the spec describes the pattern as an
  unconstrained subdirectory name followed by a fixed literal entry filename.
\<close>

datatype segment = AnyName | Literal string

text \<open>
  Modelled from the spec: a pattern segment against one entry name, the subdirectory
  name being unconstrained and the entry filename a fixed literal.
\<close>

fun segmentMatches :: "segment \<Rightarrow> string \<Rightarrow> bool" where
  "segmentMatches AnyName name = True"
| "segmentMatches (Literal l) name = (name = l)"

text \<open>
  Modelled from the spec: the directory traversal of the glob library, which is not part
  of the sources. It descends one directory per pattern segment, in the order of
  discovery; the last segment selects entry files, and the paths are relative to the
  root.
\<close>

fun matchPaths :: "segment list \<Rightarrow> (string \<times> fsnode) list \<Rightarrow> string list" where
  "matchPaths [] entries = []"
| "matchPaths [seg] entries = [name. (name, File) \<leftarrow> entries, segmentMatches seg name]"
| "matchPaths (seg # segs) entries =
     concat [map (\<lambda>p. name @ ''/'' @ p) (matchPaths segs kids).
             (name, Dir kids) \<leftarrow> entries, segmentMatches seg name]"

text \<open>
  Modelled from the spec: the locator, the glob of \<^verbatim>\<open>*/page.mdx\<close> in the content root
  (the glob library is not part of the sources).
\<close>

definition locateArticles :: "(string \<times> fsnode) list \<Rightarrow> string list" where
  "locateArticles root = matchPaths [AnyName, Literal ''page.mdx''] root"

text \<open>
  A content root with two articles, a subdirectory without entry file, an entry file
  two levels down and one at the root itself.
\<close>

definition exampleRoot :: "(string \<times> fsnode) list" where
  "exampleRoot =
     [(''a'', Dir [(''page.mdx'', File), (''til.png'', File)]),
      (''drafts'', Dir [(''notes.txt'', File)]),
      (''nested'', Dir [(''deep'', Dir [(''page.mdx'', File)])]),
      (''page.mdx'', File),
      (''b'', Dir [(''page.mdx'', File)])]"

section \<open>The state of Promise.all while only fulfilments have arrived\<close>

text \<open>
  After the promises of the indices in \<open>done\<close> have fulfilled, their slots hold their
  values, the other slots are empty, and the combined promise has fulfilled exactly when
  no promise is outstanding.
\<close>

definition allInv :: "(error + 'a) list \<Rightarrow> nat list \<Rightarrow> 'a all_state \<Rightarrow> bool" where
  "allInv ps done st =
     (length (slots st) = length ps
      \<and> (\<forall>j<length ps. slots st ! j = (if j \<in> set done then Some (projr (ps ! j)) else None))
      \<and> remaining st = length ps - length done
      \<and> outcome st = (if length done = length ps then Some (Inr (map projr ps)) else None))"

section \<open>Promise.all under a complete schedule\<close>

lemma outcome_onSettled_settled:
  "outcome st = Some r \<Longrightarrow> outcome (onSettled ps st i) = Some r"
  by (simp add: onSettled_def settleOnce_def Let_def split: sum.splits)

lemma outcome_foldl_settled:
  "outcome st = Some r \<Longrightarrow> outcome (foldl (onSettled ps) st sched) = Some r"
  by (induction sched arbitrary: st) (simp_all add: outcome_onSettled_settled)

lemma fulfilled_all_Inr: "\<forall>p\<in>set ps. \<not> isl p \<Longrightarrow> fulfilled ps = map projr ps"
  by (induction ps) (auto simp: fulfilled_def split: sum.splits)

lemma length_fulfilled: "\<forall>p\<in>set ps. \<not> isl p \<Longrightarrow> length (fulfilled ps) = length ps"
  by (simp add: fulfilled_all_Inr)

lemma distinct_bounded_length:
  assumes "distinct (xs :: nat list)" and "set xs \<subseteq> {0..<n}"
  shows "length xs \<le> n"
proof -
  have "card (set xs) \<le> card {0..<n}" using assms(2) by (intro card_mono) simp_all
  with assms(1) show ?thesis by (simp add: distinct_card)
qed

lemma distinct_full_set:
  assumes "distinct (xs :: nat list)" and "set xs \<subseteq> {0..<n}" and "length xs = n"
  shows "set xs = {0..<n}"
proof -
  have "card (set xs) = card {0..<n}" using assms(1,3) by (simp add: distinct_card)
  with assms(2) show ?thesis by (intro card_subset_eq) simp_all
qed

lemma allInv_init: "allInv ps [] (allInit (length ps))"
  by (simp add: allInv_def allInit_def)

lemma allInv_step:
  assumes inv: "allInv ps done st"
    and d: "distinct (done @ [i])" and sub: "set (done @ [i]) \<subseteq> {0..<length ps}"
    and ok: "\<not> isl (ps ! i)"
  shows "allInv ps (done @ [i]) (onSettled ps st i)"
proof -
  let ?n = "length ps"
  obtain v where v: "ps ! i = Inr v" using ok by (cases "ps ! i") auto
  have i: "i < ?n" "i \<notin> set done" using d sub by auto
  have len: "length (done @ [i]) \<le> ?n" using d sub by (rule distinct_bounded_length)
  then have lt: "length done < ?n" by simp
  let ?vs = "(slots st)[i := Some v]"
  have slots: "\<forall>j<?n. ?vs ! j = (if j \<in> set (done @ [i]) then Some (projr (ps ! j)) else None)"
    using inv v i by (auto simp: allInv_def nth_list_update)
  have rem: "remaining st - 1 = ?n - length (done @ [i])"
    using inv by (simp add: allInv_def)
  have none: "outcome st = None" using inv lt by (simp add: allInv_def)
  have full: "map the ?vs = map projr ps" if "length (done @ [i]) = ?n"
  proof -
    have "set (done @ [i]) = {0..<?n}" using d sub that by (rule distinct_full_set)
    then have "\<forall>j<?n. ?vs ! j = Some (projr (ps ! j))" using slots by auto
    moreover have "length ?vs = ?n" using inv by (simp add: allInv_def)
    ultimately show ?thesis by (intro nth_equalityI) simp_all
  qed
  have st': "onSettled ps st i =
      \<lparr>slots = ?vs, remaining = remaining st - 1,
       outcome = (if remaining st - 1 = 0 then settleOnce (Inr (map the ?vs)) (outcome st)
                  else outcome st)\<rparr>"
    by (simp add: onSettled_def v Let_def)
  have "length ?vs = ?n" using inv by (simp add: allInv_def)
  moreover have "remaining st - 1 = 0 \<longleftrightarrow> length (done @ [i]) = ?n"
    using rem len by auto
  ultimately show ?thesis
    unfolding allInv_def st' using slots rem none full
    by (auto simp: settleOnce_def)
qed

lemma allInv_foldl:
  assumes "distinct done" and "set done \<subseteq> {0..<length ps}"
    and "\<forall>i\<in>set done. \<not> isl (ps ! i)"
  shows "allInv ps done (foldl (onSettled ps) (allInit (length ps)) done)"
  using assms
proof (induction "done" rule: rev_induct)
  case Nil
  show ?case by (simp add: allInv_init)
next
  case (snoc i "done")
  then have "allInv ps done (foldl (onSettled ps) (allInit (length ps)) done)" by simp
  from allInv_step [OF this] snoc.prems show ?case by simp
qed

lemma promiseAll_fulfils:
  assumes cs: "completeSchedule sched (length ps)" and ok: "\<forall>p\<in>set ps. \<not> isl p"
  shows "promiseAll sched ps = Some (Inr (fulfilled ps))"
proof -
  have d: "distinct sched" and s: "set sched = {0..<length ps}"
    using cs by (simp_all add: completeSchedule_def)
  have "\<forall>i\<in>set sched. \<not> isl (ps ! i)" using s ok by auto
  with d s have "allInv ps sched (foldl (onSettled ps) (allInit (length ps)) sched)"
    by (intro allInv_foldl) simp_all
  moreover have "length sched = length ps" using d s by (metis card_atLeastLessThan diff_zero distinct_card)
  ultimately show ?thesis
    by (simp add: promiseAll_def allInv_def fulfilled_all_Inr [OF ok])
qed

lemma promiseAll_rejects:
  assumes cs: "completeSchedule sched (length ps)" and bad: "\<exists>p\<in>set ps. isl p"
  shows "\<exists>err. promiseAll sched ps = Some (Inl err) \<and> Inl err \<in> set ps"
proof -
  have d: "distinct sched" and s: "set sched = {0..<length ps}"
    using cs by (simp_all add: completeSchedule_def)
  let ?P = "\<lambda>i. \<not> isl (ps ! i)"
  let ?pre = "takeWhile ?P sched" and ?post = "dropWhile ?P sched"
  from bad obtain k where k: "k < length ps" "isl (ps ! k)" by (auto simp: in_set_conv_nth)
  then have "k \<in> set sched" using s by simp
  with k have "?post \<noteq> []" by (auto simp: dropWhile_eq_Nil_conv)
  then obtain i rest where post: "?post = i # rest" by (cases ?post) auto
  then have bad_i: "isl (ps ! i)" using hd_dropWhile [of ?P sched] by (metis list.sel(1) list.simps(3))
  have split: "sched = ?pre @ i # rest" using post by (metis takeWhile_dropWhile_id)
  have i_in: "i < length ps" using s split by (metis atLeastLessThan_iff in_set_conv_decomp)
  obtain err where err: "ps ! i = Inl err" using bad_i by (cases "ps ! i") auto
  have dpre: "distinct ?pre" using d by simp
  have spre: "set ?pre \<subseteq> {0..<length ps}" using s set_takeWhileD by fastforce
  have okpre: "\<forall>j\<in>set ?pre. \<not> isl (ps ! j)" using set_takeWhileD by fastforce
  let ?st = "foldl (onSettled ps) (allInit (length ps)) ?pre"
  have inv: "allInv ps ?pre ?st" using dpre spre okpre by (rule allInv_foldl)
  have "length sched = length ps" using d s by (metis card_atLeastLessThan diff_zero distinct_card)
  then have "length ?pre < length ps" using split by (metis length_append length_Cons less_add_Suc1 add_Suc_right)
  then have "outcome ?st = None" using inv by (simp add: allInv_def)
  then have "outcome (onSettled ps ?st i) = Some (Inl err)"
    by (simp add: onSettled_def err settleOnce_def)
  then have "outcome (foldl (onSettled ps) (onSettled ps ?st i) rest) = Some (Inl err)"
    by (rule outcome_foldl_settled)
  moreover have "foldl (onSettled ps) (allInit (length ps)) sched
      = foldl (onSettled ps) (onSettled ps ?st i) rest"
    by (subst split) simp
  ultimately have "promiseAll sched ps = Some (Inl err)" by (simp add: promiseAll_def)
  moreover have "Inl err \<in> set ps" using err i_in by (metis nth_mem)
  ultimately show ?thesis by blast
qed

section \<open>Properties of the sort\<close>

lemma mset_insertBy: "mset (insertBy cmp x xs) = add_mset x (mset xs)"
  by (induction xs) simp_all

lemma mset_arraySort: "mset (arraySort cmp xs) = mset xs"
  by (induction xs) (simp_all add: arraySort_def mset_insertBy)

lemma set_arraySort: "set (arraySort cmp xs) = set xs"
  using mset_arraySort [of cmp xs] by (metis set_mset_mset)

lemma set_insertBy: "set (insertBy cmp x xs) = insert x (set xs)"
  using mset_insertBy [of cmp x xs] by (metis set_mset_mset set_mset_add_mset_insert)

lemma compareFn_invalid:
  "\<not> validDate parse a \<or> \<not> validDate parse z \<Longrightarrow> compareFn parse a z = None"
  by (auto simp: validDate_def compareFn_def split: option.splits)

lemma sortCompare_valid:
  "validDate parse a \<Longrightarrow> validDate parse z \<Longrightarrow>
     0 < sortCompare (compareFn parse) a z \<longleftrightarrow> \<not> dateGe parse a z"
  by (auto simp: validDate_def compareFn_def sortCompare_def dateGe_def split: option.splits)

lemma dateGe_total:
  "validDate parse a \<Longrightarrow> validDate parse b \<Longrightarrow> \<not> dateGe parse a b \<Longrightarrow> dateGe parse b a"
  by (auto simp: validDate_def dateGe_def split: option.splits)

lemma dateGe_trans: "dateGe parse a b \<Longrightarrow> dateGe parse b c \<Longrightarrow> dateGe parse a c"
  by (auto simp: dateGe_def split: option.splits)

lemma sorted_insertBy:
  assumes "validDate parse x" and "\<forall>y\<in>set ys. validDate parse y"
    and "sorted_wrt (dateGe parse) ys"
  shows "sorted_wrt (dateGe parse) (insertBy (compareFn parse) x ys)"
  using assms
proof (induction ys)
  case Nil
  show ?case by simp
next
  case (Cons y ys)
  show ?case
  proof (cases "dateGe parse x y")
    case True
    then have "\<forall>z\<in>set ys. dateGe parse x z"
      using Cons.prems(3) by (auto intro: dateGe_trans)
    with True Cons.prems show ?thesis by (simp add: sortCompare_valid)
  next
    case False
    then have "dateGe parse y x" using Cons.prems by (simp add: dateGe_total)
    moreover have "sorted_wrt (dateGe parse) (insertBy (compareFn parse) x ys)"
      using Cons by simp
    ultimately show ?thesis
      using False Cons.prems by (simp add: sortCompare_valid set_insertBy)
  qed
qed

lemma sorted_arraySort:
  "\<forall>x\<in>set xs. validDate parse x \<Longrightarrow>
     sorted_wrt (dateGe parse) (arraySort (compareFn parse) xs)"
proof (induction xs)
  case Nil
  show ?case by (simp add: arraySort_def)
next
  case (Cons x xs)
  then have "sorted_wrt (dateGe parse) (arraySort (compareFn parse) xs)" by simp
  moreover have "\<forall>y\<in>set (arraySort (compareFn parse) xs). validDate parse y"
    using Cons.prems by (simp add: set_arraySort)
  ultimately have "sorted_wrt (dateGe parse)
      (insertBy (compareFn parse) x (arraySort (compareFn parse) xs))"
    using Cons.prems by (intro sorted_insertBy) simp_all
  then show ?case by (simp add: arraySort_def)
qed

lemma isl_importArticle: "isl (importArticle e f) = isl (importModule e f)"
  by (simp add: importArticle_def split: sum.splits)

lemma getAllArticles_fulfils:
  assumes "glob e = Inr fs" and "completeSchedule sched (length fs)"
    and "\<forall>f\<in>set fs. \<not> isl (importModule e f)"
  shows "getAllArticles e sched includePrivate =
     Some (Inr (arraySort (compareFn (dateParse e))
       (filteredArticles includePrivate (fulfilled (map (importArticle e) fs)))))"
proof -
  have "\<forall>p\<in>set (map (importArticle e) fs). \<not> isl p"
    using assms(3) by (simp add: isl_importArticle)
  moreover have "completeSchedule sched (length (map (importArticle e) fs))"
    using assms(2) by simp
  ultimately have "promiseAll sched (map (importArticle e) fs) =
      Some (Inr (fulfilled (map (importArticle e) fs)))"
    by (rule promiseAll_fulfils [rotated])
  with assms(1) show ?thesis by (simp add: getAllArticles_def)
qed

lemma getAllArticles_rejects:
  assumes "glob e = Inr fs" and "completeSchedule sched (length fs)"
    and "\<exists>f\<in>set fs. isl (importModule e f)"
  shows "\<exists>err. getAllArticles e sched includePrivate = Some (Inl err)
           \<and> (\<exists>f\<in>set fs. importModule e f = Inl err)"
proof -
  have "\<exists>p\<in>set (map (importArticle e) fs). isl p"
    using assms(3) by (simp add: isl_importArticle)
  moreover have "completeSchedule sched (length (map (importArticle e) fs))"
    using assms(2) by simp
  ultimately obtain err where err: "promiseAll sched (map (importArticle e) fs) = Some (Inl err)"
    "Inl err \<in> set (map (importArticle e) fs)"
    using promiseAll_rejects by blast
  from err(2) obtain f where "f \<in> set fs" "importArticle e f = Inl err" by auto
  then have "\<exists>f\<in>set fs. importModule e f = Inl err"
    by (auto simp: importArticle_def split: sum.splits)
  with err(1) assms(1) show ?thesis by (simp add: getAllArticles_def)
qed

section \<open>Evaluating the examples\<close>

lemma getAllArticles_loaded:
  "glob e = Inr fs \<Longrightarrow> promiseAll sched (map (importArticle e) fs) = Some (Inr articles) \<Longrightarrow>
     getAllArticles e sched includePrivate =
       Some (Inr (arraySort (compareFn (dateParse e)) (filteredArticles includePrivate articles)))"
  by (simp add: getAllArticles_def)

lemma isoDateOnly_examples:
  "isoDateOnly ''2024-01-01'' = Some 1704067200000"
  "isoDateOnly ''2025-01-10'' = Some 1736467200000"
  "isoDateOnly ''2025-04-24'' = Some 1745452800000"
  by (simp_all add: isoDateOnly_def digitVal_def dayFromYear_def dayInYear_def
      daysInMonth_def isLeap_def)

lemmas example_record_defs =
  recordA_def recordB_def recordC_def recordUndated_def recordNoExport_def
  toRecord_def spread_def getProp_def exampleArticle_def undatedArticle_def map_add_def

lemma example_dates:
  "getProp recordA ''date'' = JStr ''2024-01-01''"
  "getProp recordB ''date'' = JStr ''2025-01-10''"
  "getProp recordC ''date'' = JStr ''2025-04-24''"
  "getProp recordUndated ''date'' = JUndefined"
  "getProp recordNoExport ''date'' = JUndefined"
  by (simp_all add: example_record_defs)

lemma example_privacy:
  "getProp recordA ''isPrivate'' = JUndefined"
  "getProp recordB ''isPrivate'' = JUndefined"
  "getProp recordC ''isPrivate'' = JBool True"
  "getProp recordUndated ''isPrivate'' = JUndefined"
  "getProp recordNoExport ''isPrivate'' = JUndefined"
  by (simp_all add: example_record_defs)

lemmas example_eval =
  filteredArticles_def example_privacy arraySort_def sortCompare_def compareFn_def
  example_dates isoDateOnly_examples

lemma promiseAll_three:
  "promiseAll [2, 0, 1] [Inr x, Inr y, Inr z] = Some (Inr [x, y, z])"
  "promiseAll [1, 2, 0] [Inr x, Inr y, Inr z] = Some (Inr [x, y, z])"
  "promiseAll [0, 1, 2] [Inr x, Inr y, Inr z] = Some (Inr [x, y, z])"
  by (simp_all add: promiseAll_def allInit_def onSettled_def settleOnce_def Let_def)

lemma scenarioEnv_fields:
  "glob scenarioEnv = Inr [''a/page.mdx'', ''b/page.mdx'', ''c/page.mdx'']"
  "dateParse scenarioEnv = isoDateOnly"
  by (simp_all add: scenarioEnv_def)

lemma scenarioEnv_imports:
  "map (importArticle scenarioEnv) [''a/page.mdx'', ''b/page.mdx'', ''c/page.mdx'']
     = [Inr recordA, Inr recordB, Inr recordC]"
  by (simp add: importArticle_def scenarioEnv_def loaded_def recordA_def recordB_def
      recordC_def)

lemma scenarioEnv_loads:
  "promiseAll [2, 0, 1]
     (map (importArticle scenarioEnv) [''a/page.mdx'', ''b/page.mdx'', ''c/page.mdx''])
   = Some (Inr [recordA, recordB, recordC])"
  "promiseAll [0, 1, 2]
     (map (importArticle scenarioEnv) [''a/page.mdx'', ''b/page.mdx'', ''c/page.mdx''])
   = Some (Inr [recordA, recordB, recordC])"
  by (simp_all only: scenarioEnv_imports promiseAll_three)

lemma scenarioEnv_public:
  "getAllArticles scenarioEnv [2, 0, 1] False = Some (Inr [recordB, recordA])"
  using getAllArticles_loaded [OF scenarioEnv_fields(1) scenarioEnv_loads(1), of False]
  by (simp add: scenarioEnv_fields example_eval)

lemma scenarioEnv_all:
  "getAllArticles scenarioEnv [0, 1, 2] True = Some (Inr [recordC, recordB, recordA])"
  using getAllArticles_loaded [OF scenarioEnv_fields(1) scenarioEnv_loads(2), of True]
  by (simp add: scenarioEnv_fields example_eval)

lemma malformedEnv_fields:
  "glob (malformedEnv art) = Inr [''a/page.mdx'', ''m/page.mdx'', ''b/page.mdx'']"
  "dateParse (malformedEnv art) = isoDateOnly"
  by (simp_all add: malformedEnv_def)

lemma malformedEnv_imports:
  "map (importArticle (malformedEnv art)) [''a/page.mdx'', ''m/page.mdx'', ''b/page.mdx'']
     = [Inr recordA, Inr (toRecord ''m/page.mdx'' art), Inr recordB]"
  by (simp add: importArticle_def malformedEnv_def loaded_def recordA_def recordB_def)

lemma malformedEnv_loads:
  "promiseAll [1, 2, 0]
     (map (importArticle (malformedEnv art)) [''a/page.mdx'', ''m/page.mdx'', ''b/page.mdx''])
   = Some (Inr [recordA, toRecord ''m/page.mdx'' art, recordB])"
  by (simp only: malformedEnv_imports promiseAll_three)

section \<open>Slug derivation\<close>

lemma replaceSuffix_longer:
  "length ''/page.mdx'' < length s \<Longrightarrow> replaceSuffix s = hd s # replaceSuffix (tl s)"
  by (cases s) auto

lemma replaceSuffix_append_page: "replaceSuffix (d @ ''/page.mdx'') = d"
proof (induction d)
  case Nil
  show ?case by simp
next
  case (Cons c d)
  have "length ''/page.mdx'' < length ((c # d) @ ''/page.mdx'')" by simp
  from replaceSuffix_longer [OF this] Cons.IH show ?case by simp
qed

text \<open>
  C6. For a discovered filename \<open>d/page.mdx\<close> the derived slug is \<open>d\<close>, the name of the
  subdirectory, and it is the value of the \<open>slug\<close> property of the record built for a
  unit whose metadata has no \<open>slug\<close> property of its own (or no metadata export at all).
  The slug is a function of the filename, so equal filenames give equal slugs.
\<close>

theorem slug_strips_page_mdx:
  "replaceSuffix (d @ ''/page.mdx'') = d
   \<and> getProp (toRecord (d @ ''/page.mdx'') None) ''slug'' = JStr d
   \<and> (props ''slug'' = None \<longrightarrow>
        getProp (toRecord (d @ ''/page.mdx'') (Some props)) ''slug'' = JStr d)"
  by (simp add: replaceSuffix_append_page toRecord_def spread_def getProp_def
      map_add_def)

theorem slug_strips_page_mdx_witness:
  "replaceSuffix (''my-post'' @ ''/page.mdx'') = ''my-post''
   \<and> getProp (toRecord (''my-post'' @ ''/page.mdx'') None) ''slug'' = JStr ''my-post''
   \<and> [''date'' \<mapsto> JStr ''2025-01-10''] ''slug'' = None
   \<and> getProp (toRecord (''my-post'' @ ''/page.mdx'')
        (Some [''date'' \<mapsto> JStr ''2025-01-10''])) ''slug'' = JStr ''my-post''"
  using slug_strips_page_mdx [of "''my-post''" "[''date'' \<mapsto> JStr ''2025-01-10'']"]
  by simp

text \<open>
  C9. The \<open>slug\<close> property is written before the metadata is spread over the object,
  so a metadata export that has a \<open>slug\<close> property of its own overrides the derived
  slug in the record: the record is the metadata itself, and nothing of the derived slug
  is left in it.
\<close>

theorem metadata_slug_overrides:
  assumes "props ''slug'' = Some v"
  shows "getProp (toRecord articleFilename (Some props)) ''slug'' = v
         \<and> toRecord articleFilename (Some props) = props"
proof -
  have "[''slug'' \<mapsto> JStr (replaceSuffix articleFilename)] ++ props = props"
  proof (rule ext)
    fix k
    show "([''slug'' \<mapsto> JStr (replaceSuffix articleFilename)] ++ props) k = props k"
      using assms by (cases "props k") (auto simp: map_add_def)
  qed
  with assms show ?thesis by (simp add: toRecord_def spread_def getProp_def)
qed

theorem metadata_slug_overrides_witness:
  "[''slug'' \<mapsto> JStr ''custom''] ''slug'' = Some (JStr ''custom'')
   \<and> getProp (toRecord ''my-post/page.mdx'' (Some [''slug'' \<mapsto> JStr ''custom'']))
        ''slug'' = JStr ''custom''
   \<and> toRecord ''my-post/page.mdx'' (Some [''slug'' \<mapsto> JStr ''custom''])
        = [''slug'' \<mapsto> JStr ''custom'']
   \<and> replaceSuffix ''my-post/page.mdx'' = ''my-post''"
proof -
  have p: "[''slug'' \<mapsto> JStr ''custom''] ''slug'' = Some (JStr ''custom'')" by simp
  have "replaceSuffix ''my-post/page.mdx'' = ''my-post''" by simp
  with p metadata_slug_overrides [of "[''slug'' \<mapsto> JStr ''custom'']" "JStr ''custom''"
      "''my-post/page.mdx''", OF p]
  show ?thesis by blast
qed

section \<open>Failure and the empty root\<close>

lemma completeSchedule_examples:
  "completeSchedule [2, 0, 1] (length [x, y, z])"
  "completeSchedule [0, 1, 2] (length [x, y, z])"
  "completeSchedule [1, 2, 0] (length [x, y, z])"
  by (auto simp: completeSchedule_def)

lemma promiseAll_empty: "promiseAll sched [] = Some (Inr [])"
  by (simp add: promiseAll_def allInit_def outcome_foldl_settled)

text \<open>
  C4. When the import of one discovered unit rejects, the call rejects, whatever the
  order in which the loads settle and whatever the other units load to; the rejection
  is that of a unit whose import rejected. No list of records is returned.
\<close>

theorem load_failure_fails_call:
  assumes "glob e = Inr fs" and "completeSchedule sched (length fs)"
    and "f \<in> set fs" and "importModule e f = Inl err"
  shows "\<exists>err'. getAllArticles e sched includePrivate = Some (Inl err')
           \<and> (\<exists>f'\<in>set fs. importModule e f' = Inl err')"
proof -
  have "\<exists>f\<in>set fs. isl (importModule e f)" using assms(3,4) by force
  with assms(1,2) show ?thesis by (rule getAllArticles_rejects)
qed

lemma brokenEnv_fields:
  "glob brokenEnv = Inr [''a/page.mdx'', ''b/page.mdx'', ''c/page.mdx'']"
  "importModule brokenEnv ''a/page.mdx'' = loaded (Some (exampleArticle ''2024-01-01''))"
  "importModule brokenEnv ''b/page.mdx'' = Inl (Thrown ''Unexpected token'')"
  "importModule brokenEnv ''c/page.mdx''
     = loaded (Some ((exampleArticle ''2025-04-24'')(''isPrivate'' \<mapsto> JBool True)))"
  by (simp_all add: brokenEnv_def scenarioEnv_def)

theorem load_failure_fails_call_witness:
  "glob brokenEnv = Inr [''a/page.mdx'', ''b/page.mdx'', ''c/page.mdx'']
   \<and> completeSchedule [2, 0, 1] (length [''a/page.mdx'', ''b/page.mdx'', ''c/page.mdx''])
   \<and> ''b/page.mdx'' \<in> set [''a/page.mdx'', ''b/page.mdx'', ''c/page.mdx'']
   \<and> importModule brokenEnv ''b/page.mdx'' = Inl (Thrown ''Unexpected token'')
   \<and> \<not> isl (importModule brokenEnv ''a/page.mdx'')
   \<and> getAllArticles brokenEnv [2, 0, 1] True = Some (Inl (Thrown ''Unexpected token''))"
proof -
  have g: "glob brokenEnv = Inr [''a/page.mdx'', ''b/page.mdx'', ''c/page.mdx'']"
    by (rule brokenEnv_fields)
  have c: "completeSchedule [2, 0, 1] (length [''a/page.mdx'', ''b/page.mdx'', ''c/page.mdx''])"
    by (rule completeSchedule_examples)
  have m: "''b/page.mdx'' \<in> set [''a/page.mdx'', ''b/page.mdx'', ''c/page.mdx'']" by simp
  have i: "importModule brokenEnv ''b/page.mdx'' = Inl (Thrown ''Unexpected token'')"
    by (rule brokenEnv_fields)
  from load_failure_fails_call [OF g c m i, of True]
  have "getAllArticles brokenEnv [2, 0, 1] True = Some (Inl (Thrown ''Unexpected token''))"
    by (auto simp: brokenEnv_fields loaded_def)
  with g c m i show ?thesis by (simp add: brokenEnv_fields loaded_def)
qed

text \<open>
  C7. When the glob finds no content unit, the call fulfils with the empty list.
\<close>

theorem empty_root_gives_empty_list:
  "glob e = Inr [] \<Longrightarrow> getAllArticles e sched includePrivate = Some (Inr [])"
  by (simp add: getAllArticles_def promiseAll_empty filteredArticles_def arraySort_def)

theorem empty_root_gives_empty_list_witness:
  "glob (scenarioEnv\<lparr>glob := Inr []\<rparr>) = Inr []
   \<and> getAllArticles (scenarioEnv\<lparr>glob := Inr []\<rparr>) [] False = Some (Inr [])
   \<and> getAllArticles (scenarioEnv\<lparr>glob := Inr []\<rparr>) [] True = Some (Inr [])"
  using empty_root_gives_empty_list [of "scenarioEnv\<lparr>glob := Inr []\<rparr>" "[]" False]
    empty_root_gives_empty_list [of "scenarioEnv\<lparr>glob := Inr []\<rparr>" "[]" True]
  by simp

section \<open>Independence of the completion order, and the filter\<close>

lemma importArticle_cong_article:
  assumes "importModule e1 f = Inr m1" and "importModule e2 f = Inr m2"
    and "article m1 = article m2"
  shows "importArticle e1 f = importArticle e2 f"
  using assms by (simp add: importArticle_def)

text \<open>
  C5. Two runs that discover the same filenames, load the same metadata for each of
  them and use the same date parser return the same list, element for element, whatever
  the orders in which their loads settle (and whatever else the modules export).
\<close>

theorem output_independent_of_completion_order:
  assumes g1: "glob e1 = Inr fs" and g2: "glob e2 = Inr fs"
    and dp: "dateParse e1 = dateParse e2"
    and same: "\<forall>f\<in>set fs. \<exists>m1 m2. importModule e1 f = Inr m1 \<and> importModule e2 f = Inr m2
                 \<and> article m1 = article m2"
    and c1: "completeSchedule s1 (length fs)" and c2: "completeSchedule s2 (length fs)"
  shows "\<exists>out. getAllArticles e1 s1 includePrivate = Some (Inr out)
           \<and> getAllArticles e2 s2 includePrivate = Some (Inr out)"
proof -
  have ok1: "\<forall>f\<in>set fs. \<not> isl (importModule e1 f)" using same by fastforce
  have ok2: "\<forall>f\<in>set fs. \<not> isl (importModule e2 f)" using same by fastforce
  have "map (importArticle e1) fs = map (importArticle e2) fs"
  proof (rule map_cong [OF refl])
    fix f assume "f \<in> set fs"
    with same obtain m1 m2 where "importModule e1 f = Inr m1" "importModule e2 f = Inr m2"
      "article m1 = article m2" by blast
    then show "importArticle e1 f = importArticle e2 f" by (rule importArticle_cong_article)
  qed
  with getAllArticles_fulfils [OF g1 c1 ok1, of includePrivate]
    getAllArticles_fulfils [OF g2 c2 ok2, of includePrivate] dp
  show ?thesis by simp
qed

lemma scenarioEnv_modules:
  "\<forall>f\<in>set [''a/page.mdx'', ''b/page.mdx'', ''c/page.mdx''].
     \<exists>m1 m2. importModule scenarioEnv f = Inr m1 \<and> importModule scenarioEnv f = Inr m2
       \<and> article m1 = article m2"
  by (simp add: scenarioEnv_def loaded_def)

theorem output_independent_of_completion_order_witness:
  "glob scenarioEnv = Inr [''a/page.mdx'', ''b/page.mdx'', ''c/page.mdx'']
   \<and> completeSchedule [2, 0, 1] (length [''a/page.mdx'', ''b/page.mdx'', ''c/page.mdx''])
   \<and> completeSchedule [1, 2, 0] (length [''a/page.mdx'', ''b/page.mdx'', ''c/page.mdx''])
   \<and> getAllArticles scenarioEnv [2, 0, 1] False = Some (Inr [recordB, recordA])
   \<and> getAllArticles scenarioEnv [1, 2, 0] False = Some (Inr [recordB, recordA])"
proof -
  let ?fs = "[''a/page.mdx'', ''b/page.mdx'', ''c/page.mdx'']"
  have g: "glob scenarioEnv = Inr ?fs" by (rule scenarioEnv_fields)
  have c1: "completeSchedule [2, 0, 1] (length ?fs)" by (rule completeSchedule_examples)
  have c2: "completeSchedule [1, 2, 0] (length ?fs)" by (rule completeSchedule_examples)
  from output_independent_of_completion_order [OF g g refl scenarioEnv_modules c1 c2, of False]
  obtain out where o: "getAllArticles scenarioEnv [2, 0, 1] False = Some (Inr out)"
    "getAllArticles scenarioEnv [1, 2, 0] False = Some (Inr out)" by blast
  from o(1) have "out = [recordB, recordA]" unfolding scenarioEnv_public by simp
  with o(2) have "getAllArticles scenarioEnv [1, 2, 0] False = Some (Inr [recordB, recordA])"
    by simp
  with g c1 c2 scenarioEnv_public show ?thesis by blast
qed

text \<open>
  C2. The records returned without private articles are exactly those returned with
  them whose \<open>isPrivate\<close> property is falsy, each as often as it occurs there; with
  private articles included, every loaded record is returned.
\<close>

theorem private_filter_exact:
  assumes g: "glob e = Inr fs"
    and c1: "completeSchedule s1 (length fs)" and c2: "completeSchedule s2 (length fs)"
    and all: "getAllArticles e s1 True = Some (Inr everything)"
  shows "\<exists>pub. getAllArticles e s2 False = Some (Inr pub)
           \<and> mset pub = filter_mset (\<lambda>r. \<not> toBoolean (getProp r ''isPrivate'')) (mset everything)
           \<and> mset everything = mset (fulfilled (map (importArticle e) fs))
           \<and> length everything = length fs"
proof -
  have ok: "\<forall>f\<in>set fs. \<not> isl (importModule e f)"
  proof (rule ccontr)
    assume "\<not> ?thesis"
    then have "\<exists>f\<in>set fs. isl (importModule e f)" by simp
    from getAllArticles_rejects [OF g c1 this, of True] all show False by simp
  qed
  let ?recs = "fulfilled (map (importArticle e) fs)"
  have ev: "everything = arraySort (compareFn (dateParse e)) ?recs"
    using getAllArticles_fulfils [OF g c1 ok, of True] all
    by (simp add: filteredArticles_def)
  have "length ?recs = length fs"
    using ok by (simp add: length_fulfilled isl_importArticle)
  moreover have "length everything = length ?recs"
    using ev by (metis mset_arraySort size_mset)
  ultimately have len: "length everything = length fs" by simp
  from getAllArticles_fulfils [OF g c2 ok, of False] ev len show ?thesis
    by (simp add: filteredArticles_def mset_arraySort)
qed

theorem private_filter_exact_witness:
  "glob scenarioEnv = Inr [''a/page.mdx'', ''b/page.mdx'', ''c/page.mdx'']
   \<and> completeSchedule [0, 1, 2] (length [''a/page.mdx'', ''b/page.mdx'', ''c/page.mdx''])
   \<and> completeSchedule [2, 0, 1] (length [''a/page.mdx'', ''b/page.mdx'', ''c/page.mdx''])
   \<and> getAllArticles scenarioEnv [0, 1, 2] True = Some (Inr [recordC, recordB, recordA])
   \<and> getAllArticles scenarioEnv [2, 0, 1] False = Some (Inr [recordB, recordA])
   \<and> mset [recordB, recordA]
       = filter_mset (\<lambda>r. \<not> toBoolean (getProp r ''isPrivate''))
           (mset [recordC, recordB, recordA])
   \<and> toBoolean (getProp recordC ''isPrivate'')"
proof -
  let ?fs = "[''a/page.mdx'', ''b/page.mdx'', ''c/page.mdx'']"
  have g: "glob scenarioEnv = Inr ?fs" by (rule scenarioEnv_fields)
  have c1: "completeSchedule [0, 1, 2] (length ?fs)" by (rule completeSchedule_examples)
  have c2: "completeSchedule [2, 0, 1] (length ?fs)" by (rule completeSchedule_examples)
  from private_filter_exact [OF g c1 c2 scenarioEnv_all]
  obtain pub where p: "getAllArticles scenarioEnv [2, 0, 1] False = Some (Inr pub)"
    "mset pub = filter_mset (\<lambda>r. \<not> toBoolean (getProp r ''isPrivate''))
       (mset [recordC, recordB, recordA])" by blast
  from p(1) have "pub = [recordB, recordA]" unfolding scenarioEnv_public by simp
  with p(2) have "mset [recordB, recordA]
       = filter_mset (\<lambda>r. \<not> toBoolean (getProp r ''isPrivate''))
           (mset [recordC, recordB, recordA])" by simp
  moreover have "toBoolean (getProp recordC ''isPrivate'')" by (simp add: example_privacy)
  ultimately show ?thesis using g c1 c2 scenarioEnv_public scenarioEnv_all by blast
qed

section \<open>Date order and malformed units\<close>

lemma undatedEnv_any:
  "getAllArticles undatedEnv [1, 2, 0] includePrivate
     = Some (Inr [recordA, recordUndated, recordB])"
  using getAllArticles_loaded [OF malformedEnv_fields(1) malformedEnv_loads,
      of "Some undatedArticle" includePrivate]
  by (simp add: malformedEnv_fields example_eval undatedEnv_def
      recordUndated_def [symmetric])

lemma noExportEnv_any:
  "getAllArticles noExportEnv [1, 2, 0] includePrivate
     = Some (Inr [recordA, recordNoExport, recordB])"
  using getAllArticles_loaded [OF malformedEnv_fields(1) malformedEnv_loads,
      of None includePrivate]
  by (simp add: malformedEnv_fields example_eval noExportEnv_def
      recordNoExport_def [symmetric])

lemma example_valid:
  "validDate isoDateOnly recordA" "validDate isoDateOnly recordB"
  "validDate isoDateOnly recordC" "\<not> validDate isoDateOnly recordUndated"
  "\<not> validDate isoDateOnly recordNoExport"
  by (simp_all add: validDate_def example_dates isoDateOnly_examples)

lemma example_order:
  "dateGe isoDateOnly recordC recordB" "dateGe isoDateOnly recordB recordA"
  "\<not> dateGe isoDateOnly recordA recordB"
  "\<not> dateGe isoDateOnly recordA recordUndated"
  "\<not> dateGe isoDateOnly recordA recordNoExport"
  by (simp_all add: dateGe_def example_dates isoDateOnly_examples)

lemma malformed_examples:
  "glob undatedEnv = Inr [''a/page.mdx'', ''m/page.mdx'', ''b/page.mdx'']"
  "glob noExportEnv = Inr [''a/page.mdx'', ''m/page.mdx'', ''b/page.mdx'']"
  "dateParse undatedEnv = isoDateOnly"
  "dateParse noExportEnv = isoDateOnly"
  "importModule undatedEnv ''m/page.mdx'' = loaded (Some undatedArticle)"
  "importModule noExportEnv ''m/page.mdx'' = loaded None"
  "undatedArticle ''date'' = None"
  by (simp_all add: undatedEnv_def noExportEnv_def malformedEnv_def undatedArticle_def)

text \<open>
  C3 as stated fails: a unit without a date stays between an older and a newer article,
  and the returned list is not in descending order of date.
\<close>

theorem undated_unit_breaks_date_order:
  "getAllArticles undatedEnv [1, 2, 0] False = Some (Inr [recordA, recordUndated, recordB])
   \<and> dateParse undatedEnv = isoDateOnly
   \<and> \<not> successively (dateGe isoDateOnly) [recordA, recordUndated, recordB]
   \<and> \<not> dateGe isoDateOnly recordA recordB"
proof -
  have "\<not> successively (dateGe isoDateOnly) [recordA, recordUndated, recordB]"
    by (simp add: example_order)
  with undatedEnv_any [of False] malformed_examples(3) example_order(3) show ?thesis
    by blast
qed

text \<open>
  C3 (amended). In a returned list in which the date of every record is a valid time,
  every record is followed by one of an equal or earlier date.
\<close>

theorem sorted_when_dates_valid:
  assumes "getAllArticles e sched includePrivate = Some (Inr out)"
    and "\<forall>r\<in>set out. validDate (dateParse e) r"
  shows "successively (dateGe (dateParse e)) out"
proof -
  from assms(1) obtain xs where out: "out = arraySort (compareFn (dateParse e)) xs"
    by (auto simp: getAllArticles_def split: sum.splits option.splits)
  with assms(2) have "\<forall>r\<in>set xs. validDate (dateParse e) r" by (simp add: set_arraySort)
  then have "sorted_wrt (dateGe (dateParse e)) out" unfolding out by (rule sorted_arraySort)
  then show ?thesis by (rule successively_if_sorted_wrt)
qed

theorem sorted_when_dates_valid_witness:
  "getAllArticles scenarioEnv [0, 1, 2] True = Some (Inr [recordC, recordB, recordA])
   \<and> validDate (dateParse scenarioEnv) recordC
   \<and> validDate (dateParse scenarioEnv) recordB
   \<and> validDate (dateParse scenarioEnv) recordA
   \<and> successively (dateGe (dateParse scenarioEnv)) [recordC, recordB, recordA]
   \<and> dateGe isoDateOnly recordC recordB \<and> dateGe isoDateOnly recordB recordA"
proof -
  have v: "\<forall>r\<in>set [recordC, recordB, recordA]. validDate (dateParse scenarioEnv) r"
    by (simp add: scenarioEnv_fields example_valid)
  from sorted_when_dates_valid [OF scenarioEnv_all v]
  have "successively (dateGe (dateParse scenarioEnv)) [recordC, recordB, recordA]" .
  moreover have "validDate (dateParse scenarioEnv) recordC"
    "validDate (dateParse scenarioEnv) recordB" "validDate (dateParse scenarioEnv) recordA"
    using v by simp_all
  ultimately show ?thesis using scenarioEnv_all example_order by blast
qed

text \<open>
  C1 as stated fails: with one unit of three lacking the \<open>date\<close> property, or lacking
  the metadata export altogether, the call fulfils with all three records.
\<close>

theorem malformed_unit_does_not_fail:
  "undatedArticle ''date'' = None
   \<and> importModule undatedEnv ''m/page.mdx'' = loaded (Some undatedArticle)
   \<and> getAllArticles undatedEnv [1, 2, 0] True = Some (Inr [recordA, recordUndated, recordB])
   \<and> importModule noExportEnv ''m/page.mdx'' = loaded None
   \<and> getAllArticles noExportEnv [1, 2, 0] False = Some (Inr [recordA, recordNoExport, recordB])"
  using malformed_examples(5-7) undatedEnv_any [of True] noExportEnv_any [of False]
  by blast

text \<open>
  C1 (amended). When every import fulfils, the call fulfils; with private articles
  included it returns one record per discovered unit, the record of every unit among
  them, also of a unit whose metadata export is missing or has no \<open>date\<close>.
\<close>

theorem malformed_unit_still_listed:
  assumes g: "glob e = Inr fs" and c: "completeSchedule sched (length fs)"
    and ok: "\<forall>f\<in>set fs. \<exists>m. importModule e f = Inr m"
  shows "(\<exists>out. getAllArticles e sched includePrivate = Some (Inr out))
         \<and> (\<exists>out. getAllArticles e sched True = Some (Inr out) \<and> length out = length fs
               \<and> (\<forall>f\<in>set fs. \<forall>m. importModule e f = Inr m \<longrightarrow>
                     toRecord f (article m) \<in> set out))"
proof -
  have ok': "\<forall>f\<in>set fs. \<not> isl (importModule e f)" using ok by fastforce
  have any: "\<exists>out. getAllArticles e sched includePrivate = Some (Inr out)"
    using getAllArticles_fulfils [OF g c ok', of includePrivate] by simp
  let ?recs = "fulfilled (map (importArticle e) fs)"
  let ?out = "arraySort (compareFn (dateParse e)) ?recs"
  have res: "getAllArticles e sched True = Some (Inr ?out)"
    using getAllArticles_fulfils [OF g c ok', of True] by (simp add: filteredArticles_def)
  have "length ?recs = length fs" using ok' by (simp add: length_fulfilled isl_importArticle)
  moreover have "length ?out = length ?recs" by (metis mset_arraySort size_mset)
  ultimately have len: "length ?out = length fs" by simp
  have recs: "?recs = map projr (map (importArticle e) fs)"
    using ok' by (intro fulfilled_all_Inr) (simp add: isl_importArticle)
  have "toRecord f (article m) \<in> set ?out" if "f \<in> set fs" "importModule e f = Inr m" for f m
  proof -
    from that(2) have "projr (importArticle e f) = toRecord f (article m)"
      by (simp add: importArticle_def)
    with that(1) have "toRecord f (article m) \<in> set ?recs" unfolding recs by force
    then show ?thesis by (simp add: set_arraySort)
  qed
  with res len any show ?thesis by blast
qed

theorem malformed_unit_still_listed_witness:
  "glob noExportEnv = Inr [''a/page.mdx'', ''m/page.mdx'', ''b/page.mdx'']
   \<and> completeSchedule [1, 2, 0] (length [''a/page.mdx'', ''m/page.mdx'', ''b/page.mdx''])
   \<and> (\<exists>m. importModule noExportEnv ''a/page.mdx'' = Inr m)
   \<and> (\<exists>m. importModule noExportEnv ''b/page.mdx'' = Inr m)
   \<and> importModule noExportEnv ''m/page.mdx'' = Inr \<lparr>default_export = (), article = None\<rparr>
   \<and> (\<exists>out. getAllArticles noExportEnv [1, 2, 0] True = Some (Inr out) \<and> length out = 3
         \<and> toRecord ''m/page.mdx'' None \<in> set out)"
proof -
  let ?fs = "[''a/page.mdx'', ''m/page.mdx'', ''b/page.mdx'']"
  have g: "glob noExportEnv = Inr ?fs" by (rule malformed_examples)
  have c: "completeSchedule [1, 2, 0] (length ?fs)" by (rule completeSchedule_examples)
  have ok: "\<forall>f\<in>set ?fs. \<exists>m. importModule noExportEnv f = Inr m"
    by (simp add: noExportEnv_def malformedEnv_def loaded_def)
  have m: "importModule noExportEnv ''m/page.mdx'' = Inr \<lparr>default_export = (), article = None\<rparr>"
    by (simp add: noExportEnv_def malformedEnv_def loaded_def)
  from malformed_unit_still_listed [OF g c ok, of True] m
  have "\<exists>out. getAllArticles noExportEnv [1, 2, 0] True = Some (Inr out) \<and> length out = 3
         \<and> toRecord ''m/page.mdx'' None \<in> set out"
    by fastforce
  moreover have "\<exists>m. importModule noExportEnv ''a/page.mdx'' = Inr m"
    "\<exists>m. importModule noExportEnv ''b/page.mdx'' = Inr m"
    using ok by simp_all
  ultimately show ?thesis using g c m by blast
qed

section \<open>Totality of the sort\<close>

lemma sorted_examples:
  "arraySort (compareFn isoDateOnly) [recordA, recordB, recordC] = [recordC, recordB, recordA]"
  "arraySort (compareFn isoDateOnly) [recordA, recordNoExport, recordB]
     = [recordA, recordNoExport, recordB]"
  by (simp_all add: example_eval)

text \<open>
  C10. The sort never fails: once the loads have fulfilled, the call fulfils with a
  permutation of the filtered records, whatever their dates. The comparator is NaN when
  one of the two dates is not a valid time, and the sort counts that as zero, so it moves
  neither record past the other. The result is in descending order of date when every
  date is a valid time; with a record that has no date it need not be.
\<close>

theorem sort_total_and_permutes:
  "(glob e = Inr fs \<and> promiseAll sched (map (importArticle e) fs) = Some (Inr articles) \<longrightarrow>
      (\<exists>out. getAllArticles e sched includePrivate = Some (Inr out)
         \<and> mset out = mset (filteredArticles includePrivate articles)))
   \<and> mset (arraySort (compareFn parse) xs) = mset xs
   \<and> (\<not> validDate parse a \<or> \<not> validDate parse z \<longrightarrow>
        compareFn parse a z = None \<and> sortCompare (compareFn parse) a z = 0)
   \<and> ((\<forall>r\<in>set xs. validDate parse r) \<longrightarrow>
        successively (dateGe parse) (arraySort (compareFn parse) xs))
   \<and> \<not> successively (dateGe isoDateOnly)
        (arraySort (compareFn isoDateOnly) [recordA, recordNoExport, recordB])"
proof (intro conjI impI)
  assume "glob e = Inr fs \<and> promiseAll sched (map (importArticle e) fs) = Some (Inr articles)"
  then have "getAllArticles e sched includePrivate =
      Some (Inr (arraySort (compareFn (dateParse e)) (filteredArticles includePrivate articles)))"
    by (simp add: getAllArticles_loaded)
  then show "\<exists>out. getAllArticles e sched includePrivate = Some (Inr out)
         \<and> mset out = mset (filteredArticles includePrivate articles)"
    by (simp add: mset_arraySort)
next
  show "mset (arraySort (compareFn parse) xs) = mset xs" by (rule mset_arraySort)
next
  assume "\<not> validDate parse a \<or> \<not> validDate parse z"
  then show "compareFn parse a z = None" by (rule compareFn_invalid)
next
  assume "\<not> validDate parse a \<or> \<not> validDate parse z"
  then show "sortCompare (compareFn parse) a z = 0"
    by (simp add: compareFn_invalid sortCompare_def)
next
  assume "\<forall>r\<in>set xs. validDate parse r"
  then have "sorted_wrt (dateGe parse) (arraySort (compareFn parse) xs)"
    by (rule sorted_arraySort)
  then show "successively (dateGe parse) (arraySort (compareFn parse) xs)"
    by (rule successively_if_sorted_wrt)
next
  show "\<not> successively (dateGe isoDateOnly)
        (arraySort (compareFn isoDateOnly) [recordA, recordNoExport, recordB])"
    by (simp add: sorted_examples example_order)
qed

theorem sort_total_and_permutes_witness:
  "glob undatedEnv = Inr [''a/page.mdx'', ''m/page.mdx'', ''b/page.mdx'']
   \<and> promiseAll [1, 2, 0]
        (map (importArticle undatedEnv) [''a/page.mdx'', ''m/page.mdx'', ''b/page.mdx''])
      = Some (Inr [recordA, recordUndated, recordB])
   \<and> getAllArticles undatedEnv [1, 2, 0] False = Some (Inr [recordA, recordUndated, recordB])
   \<and> mset [recordA, recordUndated, recordB]
        = mset (filteredArticles False [recordA, recordUndated, recordB])
   \<and> \<not> validDate isoDateOnly recordUndated
   \<and> compareFn isoDateOnly recordA recordUndated = None
   \<and> sortCompare (compareFn isoDateOnly) recordA recordUndated = 0
   \<and> validDate isoDateOnly recordA \<and> validDate isoDateOnly recordB
   \<and> validDate isoDateOnly recordC
   \<and> arraySort (compareFn isoDateOnly) [recordA, recordB, recordC]
        = [recordC, recordB, recordA]
   \<and> successively (dateGe isoDateOnly) [recordC, recordB, recordA]"
proof -
  let ?fs = "[''a/page.mdx'', ''m/page.mdx'', ''b/page.mdx'']"
  let ?loaded = "[recordA, recordUndated, recordB]"
  note inst = sort_total_and_permutes [of undatedEnv ?fs "[1, 2, 0]" ?loaded False
      isoDateOnly "[recordA, recordB, recordC]" recordA recordUndated]
  have g: "glob undatedEnv = Inr ?fs" by (rule malformed_examples)
  have l: "promiseAll [1, 2, 0] (map (importArticle undatedEnv) ?fs) = Some (Inr ?loaded)"
    unfolding undatedEnv_def recordUndated_def by (rule malformedEnv_loads)
  from inst g l obtain out where out: "getAllArticles undatedEnv [1, 2, 0] False = Some (Inr out)"
    "mset out = mset (filteredArticles False ?loaded)" by blast
  from out(1) have "out = ?loaded" unfolding undatedEnv_any by simp
  with out(2) have perm: "mset ?loaded = mset (filteredArticles False ?loaded)" by simp
  have nv: "\<not> validDate isoDateOnly recordUndated" by (rule example_valid)
  with inst have nan: "compareFn isoDateOnly recordA recordUndated = None"
    "sortCompare (compareFn isoDateOnly) recordA recordUndated = 0" by blast+
  have v: "validDate isoDateOnly recordA" "validDate isoDateOnly recordB"
    "validDate isoDateOnly recordC" by (rule example_valid)+
  then have "\<forall>r\<in>set [recordA, recordB, recordC]. validDate isoDateOnly r" by simp
  with inst have "successively (dateGe isoDateOnly)
      (arraySort (compareFn isoDateOnly) [recordA, recordB, recordC])" by blast
  then have s: "successively (dateGe isoDateOnly) [recordC, recordB, recordA]"
    unfolding sorted_examples .
  from g l undatedEnv_any [of False] perm nv nan v sorted_examples(1) s show ?thesis
    by blast
qed

section \<open>The locator's matches\<close>

lemma set_matchPaths_last:
  "set (matchPaths [seg] entries) = {name. (name, File) \<in> set entries \<and> segmentMatches seg name}"
  by (induction entries) (auto split: fsnode.splits)

lemma set_matchPaths_step:
  "set (matchPaths (s1 # s2 # ss) entries) =
     {name @ ''/'' @ p | name kids p.
        (name, Dir kids) \<in> set entries \<and> segmentMatches s1 name
        \<and> p \<in> set (matchPaths (s2 # ss) kids)}"
proof (induction entries)
  case Nil
  show ?case by simp
next
  case (Cons entry entries)
  obtain name node where entry: "entry = (name, node)" by (cases entry)
  have split: "matchPaths (s1 # s2 # ss) (entry # entries) =
      (case node of
         File \<Rightarrow> []
       | Dir kids \<Rightarrow> if segmentMatches s1 name
           then map (\<lambda>p. name @ ''/'' @ p) (matchPaths (s2 # ss) kids) else [])
      @ matchPaths (s1 # s2 # ss) entries"
    by (simp add: entry split: fsnode.splits)
  show ?case
    unfolding split set_append Cons.IH
    by (cases node) (auto simp: entry)
qed

text \<open>
  C8. The locator returns exactly the paths \<open>d/page.mdx\<close> for the immediate
  subdirectories \<open>d\<close> of the content root that hold an entry file \<open>page.mdx\<close>: a
  subdirectory without the entry file contributes nothing, and neither does an entry file
  deeper down or at the root itself.
\<close>

theorem locator_matches_one_level:
  "p \<in> set (locateArticles root) \<longleftrightarrow>
     (\<exists>d kids. (d, Dir kids) \<in> set root \<and> (''page.mdx'', File) \<in> set kids
        \<and> p = d @ ''/page.mdx'')"
  unfolding locateArticles_def set_matchPaths_step set_matchPaths_last
  by auto

theorem locator_matches_one_level_witness:
  "''a/page.mdx'' \<in> set (locateArticles exampleRoot)
   \<and> ''drafts/page.mdx'' \<notin> set (locateArticles exampleRoot)
   \<and> ''nested/deep/page.mdx'' \<notin> set (locateArticles exampleRoot)
   \<and> ''page.mdx'' \<notin> set (locateArticles exampleRoot)
   \<and> locateArticles exampleRoot = [''a/page.mdx'', ''b/page.mdx'']"
proof -
  have "''a/page.mdx'' \<in> set (locateArticles exampleRoot)"
    unfolding locator_matches_one_level by (simp add: exampleRoot_def)
  moreover have "''drafts/page.mdx'' \<notin> set (locateArticles exampleRoot)"
    unfolding locator_matches_one_level by (simp add: exampleRoot_def)
  moreover have "''nested/deep/page.mdx'' \<notin> set (locateArticles exampleRoot)"
    unfolding locator_matches_one_level by (simp add: exampleRoot_def)
  moreover have "''page.mdx'' \<notin> set (locateArticles exampleRoot)"
    unfolding locator_matches_one_level by (simp add: exampleRoot_def)
  moreover have "locateArticles exampleRoot = [''a/page.mdx'', ''b/page.mdx'']"
    by (simp add: locateArticles_def exampleRoot_def)
  ultimately show ?thesis by blast
qed

end
